theory Spec2Isabelle
  imports Main
begin

section \<open>Library functions the package calls\<close>

text \<open>
  Go strings are byte sequences and \<open>len\<close> counts bytes; they are modelled as
  \<^typ>\<open>string\<close>, whose characters are bytes. Go's \<open>int\<close> is the 64-bit signed integer;
  the package only compares such values, so they are modelled as \<^typ>\<open>int\<close>, and the one
  place where the range matters (\<open>strconv.Atoi\<close>) checks it.
\<close>

text \<open>\<open>strings.Split(s, sep)\<close> for a separator of one byte, which is what every call
  of the package passes (\<open>";"\<close>, \<open>":"\<close> and \<open>","\<close>).\<close>

fun Split :: "string \<Rightarrow> char \<Rightarrow> string list" where
  "Split [] sep = [[]]"
| "Split (c # cs) sep =
     (if c = sep then [] # Split cs sep
      else (case Split cs sep of
              [] \<Rightarrow> [[c]]
            | piece # pieces \<Rightarrow> (c # piece) # pieces))"

text \<open>\<open>strings.Join(elems, sep)\<close>.\<close>

fun Join :: "string list \<Rightarrow> string \<Rightarrow> string" where
  "Join [] sep = []"
| "Join [e] sep = e"
| "Join (e # e' # es) sep = e @ sep @ Join (e' # es) sep"

text \<open>The \<open>Err\<close> field of a \<open>*strconv.NumError\<close>.\<close>

datatype NumError = ErrSyntax | ErrRange

definition isDigit :: "char \<Rightarrow> bool" where
  "isDigit c = (48 \<le> (of_char c :: nat) \<and> (of_char c :: nat) \<le> 57)"

definition digitVal :: "char \<Rightarrow> nat" where
  "digitVal c = (of_char c :: nat) - 48"

text \<open>The digit loop of \<open>strconv.ParseUint(s, 10, 64)\<close>: a byte that is no decimal digit
  is a syntax error, a value beyond \<open>2^64 - 1\<close> a range error, whichever the scan meets
  first.\<close>

fun ParseUint_loop :: "string \<Rightarrow> nat \<Rightarrow> NumError + nat" where
  "ParseUint_loop [] n = Inr n"
| "ParseUint_loop (c # cs) n =
     (if \<not> isDigit c then Inl ErrSyntax
      else if n \<ge> (2 ^ 64 - 1) div 10 + 1 then Inl ErrRange
      else (let n1 = n * 10 + digitVal c in
            if n1 > 2 ^ 64 - 1 then Inl ErrRange
            else ParseUint_loop cs n1))"

definition ParseUint :: "string \<Rightarrow> NumError + nat" where
  "ParseUint s = (if s = [] then Inl ErrSyntax else ParseUint_loop s 0)"

text \<open>\<open>strconv.Atoi\<close> on a 64-bit platform (its fast path for short strings computes the
  same result as \<open>ParseInt(s, 10, 0)\<close>, which is what is written here): an optional sign,
  then decimal digits, the value within \<open>[-2^63, 2^63 - 1]\<close>.\<close>

definition Atoi :: "string \<Rightarrow> NumError + int" where
  "Atoi s =
     (case s of
        [] \<Rightarrow> Inl ErrSyntax
      | c # cs \<Rightarrow>
          (let neg = (c = CHR ''-'');
               s' = (if c = CHR ''+'' \<or> c = CHR ''-'' then cs else s) in
           case ParseUint s' of
             Inl e \<Rightarrow> Inl e
           | Inr un \<Rightarrow>
               if \<not> neg \<and> un \<ge> 2 ^ 63 then Inl ErrRange
               else if neg \<and> un > 2 ^ 63 then Inl ErrRange
               else Inr (if neg then - int un else int un)))"

text \<open>The verb \<open>%d\<close> of \<open>fmt\<close> on an \<open>int\<close>, and \<open>%v\<close> on a slice of ints or of strings
  (the elements separated by one space, in brackets).\<close>

fun digits :: "nat \<Rightarrow> string" where
  "digits n =
     (if n < 10 then [''0123456789'' ! n]
      else digits (n div 10) @ [''0123456789'' ! (n mod 10)])"

declare digits.simps [simp del]

definition fmt_d :: "int \<Rightarrow> string" where
  "fmt_d i = (if i < 0 then CHR ''-'' # digits (nat (- i)) else digits (nat i))"

definition fmt_v_ints :: "int list \<Rightarrow> string" where
  "fmt_v_ints xs = ''['' @ Join (map fmt_d xs) '' '' @ '']''"

definition fmt_v_strings :: "string list \<Rightarrow> string" where
  "fmt_v_strings xs = ''['' @ Join xs '' '' @ '']''"

section \<open>Types and values as \<open>reflect\<close> shows them\<close>

text \<open>The kinds of \<open>reflect.Kind\<close>. The package distinguishes \<open>Int\<close>, \<open>String\<close> and
  \<open>Struct\<close>; every other kind takes the default branch of its switches.\<close>

datatype other_kind =
    Bool | Int8 | Int16 | Int32 | Int64
  | Uint | Uint8 | Uint16 | Uint32 | Uint64 | Uintptr
  | Float32 | Float64 | Complex64 | Complex128
  | Array | Chan | Func | Interface | Map | Pointer | Slice | UnsafePointer

datatype Kind = reflect_Int | reflect_String | reflect_Struct | reflect_Other other_kind

text \<open>A struct tag is the list of its \<open>key:"value"\<close> pairs; \<open>Lookup\<close> returns the value of
  the first pair with the key, \<open>Get\<close> the empty string when there is none.\<close>

type_synonym StructTag = "(string \<times> string) list"

definition Lookup :: "StructTag \<Rightarrow> string \<Rightarrow> string option" where
  "Lookup tag key = map_of tag key"

definition Get :: "StructTag \<Rightarrow> string \<Rightarrow> string" where
  "Get tag key = (case Lookup tag key of Some v \<Rightarrow> v | None \<Rightarrow> [])"

text \<open>A \<open>reflect.Type\<close> and the \<open>reflect.StructField\<close> descriptors of a struct type.
  \<open>PkgPath\<close> is empty exactly for an exported field.\<close>

datatype Type =
    IntType
  | StringType
  | StructType "StructField list"
  | OtherType other_kind
and StructField =
    StructField (Name: string) (PkgPath: string) (Type: Type) (Tag: StructTag)

fun KindOf :: "Type \<Rightarrow> Kind" where
  "KindOf IntType = reflect_Int"
| "KindOf StringType = reflect_String"
| "KindOf (StructType fs) = reflect_Struct"
| "KindOf (OtherType k) = reflect_Other k"

definition IsExported :: "StructField \<Rightarrow> bool" where
  "IsExported f = (PkgPath f = [])"

text \<open>A Go value together with its dynamic type. A struct value lists its fields in
  declaration order, each with what its descriptor says and with its value. The package
  never reads a value of another kind, so such a value carries its kind only.\<close>

datatype Value =
    IntValue int
  | StringValue string
  | StructValue "Member list"
  | OtherValue other_kind
and Member =
    Member (mName: string) (mPkgPath: string) (mTag: StructTag) (mValue: Value)

fun TypeOfValue :: "Value \<Rightarrow> Type"
and FieldOf :: "Member \<Rightarrow> StructField" where
  "TypeOfValue (IntValue n) = IntType"
| "TypeOfValue (StringValue s) = StringType"
| "TypeOfValue (StructValue ms) = StructType (map FieldOf ms)"
| "TypeOfValue (OtherValue k) = OtherType k"
| "FieldOf (Member name pkg tag v) = StructField name pkg (TypeOfValue v) tag"

text \<open>An argument of type \<open>any\<close> is the nil interface (\<open>None\<close>) or holds a value.
  \<open>reflect.TypeOf\<close> of the nil interface is the nil \<open>Type\<close>.\<close>

type_synonym any = "Value option"

definition TypeOf :: "any \<Rightarrow> Type option" where
  "TypeOf v = map_option TypeOfValue v"

text \<open>What stops a call instead of returning: calling \<open>Kind()\<close> on the nil \<open>Type\<close>, the
  \<open>log.Panicf\<close> of the parser, the panic of \<open>reflect.Value.Int\<close> on a value that is no
  signed integer, and a type assertion that fails. \<open>Unmodelled\<close> marks the two places
  where the package would read what this model does not hold: the number in a value
  of a sized integer kind, and the name of a type.\<close>

datatype panic =
    NilPointerDereference
  | UnsupportedType Type
  | ValueError string
  | InterfaceConversion
  | Unmodelled string

text \<open>\<open>reflect.Value.Int\<close> and \<open>reflect.Value.String\<close>. \<open>Int\<close> reads the signed integers
  and panics on every other value. \<open>String\<close> never panics: on a value that is no string
  it returns \<open><T Value>\<close> for the type \<open>T\<close> of the value. \<open>Validate\<close> calls \<open>Int\<close> on values
  of kind \<open>Int\<close> and \<open>String\<close> on values of kind \<open>String\<close> only.\<close>

fun Value_Int :: "Value \<Rightarrow> panic + int" where
  "Value_Int (IntValue n) = Inr n"
| "Value_Int (OtherValue k) =
     (if k = Int8 \<or> k = Int16 \<or> k = Int32 \<or> k = Int64
      then Inl (Unmodelled ''reflect.Value.Int'')
      else Inl (ValueError ''reflect.Value.Int''))"
| "Value_Int v = Inl (ValueError ''reflect.Value.Int'')"

fun Value_String :: "Value \<Rightarrow> panic + string" where
  "Value_String (StringValue s) = Inr s"
| "Value_String (IntValue n) = Inr ''<int Value>''"
| "Value_String v = Inl (Unmodelled ''reflect.Value.String'')"

section \<open>Errors\<close>

text \<open>The error values of the package: its three sentinels, an error made by
  \<open>fmt.Errorf\<close> (its message), a \<open>ValidationError\<close> and a \<open>ValidationErrors\<close>.\<close>

datatype error =
    ErrNotStruct
  | ErrInvalidValidatorSyntax
  | ErrValidateForUnexportedFields
  | Errorf string
  | VE ValidationError
  | ValidationErrors "ValidationError list"
and ValidationError =
    ValidationError (Field: string) (Err: error)

fun Error :: "error \<Rightarrow> string"
and ValidationError_Error :: "ValidationError \<Rightarrow> string" where
  "Error ErrNotStruct = ''wrong argument given, should be a struct''"
| "Error ErrInvalidValidatorSyntax = ''invalid validator syntax''"
| "Error ErrValidateForUnexportedFields = ''validation for unexported field is not allowed''"
| "Error (Errorf msg) = msg"
| "Error (VE e) = ValidationError_Error e"
| "Error (ValidationErrors [ValidationError field err]) = Error err"
| "Error (ValidationErrors v) = Join (map ValidationError_Error v) [CHR 0x0A]"
| "ValidationError_Error (ValidationError field err) = field @ '': '' @ Error err"

section \<open>The constraints (validate\_utils.go)\<close>

fun contains :: "'a list \<Rightarrow> 'a \<Rightarrow> bool" where
  "contains [] needle = False"
| "contains (v # s) needle = (if v = needle then True else contains s needle)"

fun parseIntSlice_loop :: "string list \<Rightarrow> int list \<Rightarrow> NumError + int list" where
  "parseIntSlice_loop [] intVals = Inr intVals"
| "parseIntSlice_loop (v # strVals) intVals =
     (case Atoi v of
        Inl err \<Rightarrow> Inl err
      | Inr val \<Rightarrow> parseIntSlice_loop strVals (intVals @ [val]))"

definition parseIntSlice :: "string \<Rightarrow> NumError + int list" where
  "parseIntSlice s = parseIntSlice_loop (Split s (CHR '','')) []"

text \<open>The seven implementations of the interface \<open>fieldValidator\<close>, each with its
  parameter.\<close>

datatype fieldValidator =
    intMinValidator int
  | intMaxValidator int
  | intInValidator "int list"
  | strLenValidator int
  | strMinValidator int
  | strMaxValidator int
  | strInValidator "string list"

type_synonym fieldValidatorCreator = "string \<Rightarrow> NumError + fieldValidator"

text \<open>The method \<open>validate\<close>: \<open>Inr None\<close> is the nil error.\<close>

fun validate :: "fieldValidator \<Rightarrow> Value \<Rightarrow> panic + error option" where
  "validate (intMinValidator mn) i =
     (case Value_Int i of
        Inl p \<Rightarrow> Inl p
      | Inr val \<Rightarrow>
          if val < mn
          then Inr (Some (Errorf (fmt_d val @ '' is less than min allowed '' @ fmt_d mn)))
          else Inr None)"
| "validate (intMaxValidator mx) i =
     (case Value_Int i of
        Inl p \<Rightarrow> Inl p
      | Inr val \<Rightarrow>
          if val > mx
          then Inr (Some (Errorf (fmt_d val @ '' is higher than max allowed '' @ fmt_d mx)))
          else Inr None)"
| "validate (intInValidator ins) i =
     (case Value_Int i of
        Inl p \<Rightarrow> Inl p
      | Inr val \<Rightarrow>
          if \<not> contains ins val
          then Inr (Some (Errorf (fmt_d val @ '' is not in '' @ fmt_v_ints ins)))
          else Inr None)"
| "validate (strLenValidator l) s =
     (case Value_String s of
        Inl p \<Rightarrow> Inl p
      | Inr val \<Rightarrow>
          if int (length val) \<noteq> l
          then Inr (Some (Errorf (''len of '' @ val @ '' is not equal to '' @ fmt_d l)))
          else Inr None)"
| "validate (strMinValidator mn) s =
     (case Value_String s of
        Inl p \<Rightarrow> Inl p
      | Inr val \<Rightarrow>
          if int (length val) < mn
          then Inr (Some (Errorf (''len of '' @ val @ '' is less than min allowed '' @ fmt_d mn)))
          else Inr None)"
| "validate (strMaxValidator mx) s =
     (case Value_String s of
        Inl p \<Rightarrow> Inl p
      | Inr val \<Rightarrow>
          if int (length val) > mx
          then Inr (Some (Errorf (''len of '' @ val @ '' is higher than max allowed '' @ fmt_d mx)))
          else Inr None)"
| "validate (strInValidator ins) s =
     (case Value_String s of
        Inl p \<Rightarrow> Inl p
      | Inr val \<Rightarrow>
          if \<not> contains ins val
          then Inr (Some (Errorf (val @ '' is not in '' @ fmt_v_strings ins)))
          else Inr None)"

definition newIntMinValidator :: fieldValidatorCreator where
  "newIntMinValidator s =
     (case Atoi s of Inl err \<Rightarrow> Inl err | Inr val \<Rightarrow> Inr (intMinValidator val))"

definition newIntMaxValidator :: fieldValidatorCreator where
  "newIntMaxValidator s =
     (case Atoi s of Inl err \<Rightarrow> Inl err | Inr val \<Rightarrow> Inr (intMaxValidator val))"

definition newIntInValidator :: fieldValidatorCreator where
  "newIntInValidator s =
     (case parseIntSlice s of Inl err \<Rightarrow> Inl err | Inr vals \<Rightarrow> Inr (intInValidator vals))"

definition newStrLenValidator :: fieldValidatorCreator where
  "newStrLenValidator s =
     (case Atoi s of Inl err \<Rightarrow> Inl err | Inr val \<Rightarrow> Inr (strLenValidator val))"

definition newStrMinValidator :: fieldValidatorCreator where
  "newStrMinValidator s =
     (case Atoi s of Inl err \<Rightarrow> Inl err | Inr val \<Rightarrow> Inr (strMinValidator val))"

definition newStrMaxValidator :: fieldValidatorCreator where
  "newStrMaxValidator s =
     (case Atoi s of Inl err \<Rightarrow> Inl err | Inr val \<Rightarrow> Inr (strMaxValidator val))"

definition newStrInValidator :: fieldValidatorCreator where
  "newStrInValidator s = Inr (strInValidator (Split s (CHR '','')))"

section \<open>The parser and the traversal (validator.go)\<close>

definition intValidators :: "string \<Rightarrow> fieldValidatorCreator option" where
  "intValidators =
     map_of [(''min'', newIntMinValidator),
             (''max'', newIntMaxValidator),
             (''in'', newIntInValidator)]"

definition strValidators :: "string \<Rightarrow> fieldValidatorCreator option" where
  "strValidators =
     map_of [(''len'', newStrLenValidator),
             (''min'', newStrMinValidator),
             (''max'', newStrMaxValidator),
             (''in'', newStrInValidator)]"

text \<open>The loop of \<open>parseValidators\<close> over the clauses \<open>kvs\<close>, with the validators
  appended so far; \<open>Inl\<close> is the returned error.\<close>

fun parseValidators_loop ::
  "(string \<Rightarrow> fieldValidatorCreator option) \<Rightarrow> string list \<Rightarrow> fieldValidator list
     \<Rightarrow> error + fieldValidator list" where
  "parseValidators_loop fieldValidators [] validators = Inr validators"
| "parseValidators_loop fieldValidators (kv # kvs) validators =
     (let vals = Split kv (CHR '':'') in
      if length vals \<noteq> 2 \<or> length (vals ! 0) = 0 \<or> length (vals ! 1) = 0
      then Inl ErrInvalidValidatorSyntax
      else
        (let k = vals ! 0; v = vals ! 1 in
         case fieldValidators k of
           None \<Rightarrow> Inl ErrInvalidValidatorSyntax
         | Some createValidator \<Rightarrow>
             (case createValidator v of
                Inl err \<Rightarrow> Inl ErrInvalidValidatorSyntax
              | Inr validator \<Rightarrow>
                  parseValidators_loop fieldValidators kvs (validators @ [validator]))))"

definition parseValidators :: "Type \<Rightarrow> string \<Rightarrow> panic + (error + fieldValidator list)" where
  "parseValidators t tag =
     (case KindOf t of
        reflect_Int \<Rightarrow> Inr (parseValidators_loop intValidators (Split tag (CHR '';'')) [])
      | reflect_String \<Rightarrow> Inr (parseValidators_loop strValidators (Split tag (CHR '';'')) [])
      | _ \<Rightarrow> Inl (UnsupportedType t))"

fun needValidation :: "StructField \<Rightarrow> bool" where
  "needValidation (StructField name pkg t tag) =
     (case t of
        IntType \<Rightarrow> (case Lookup tag ''validate'' of Some _ \<Rightarrow> True | None \<Rightarrow> False)
      | StringType \<Rightarrow> (case Lookup tag ''validate'' of Some _ \<Rightarrow> True | None \<Rightarrow> False)
      | StructType fields \<Rightarrow> list_ex needValidation fields
      | OtherType _ \<Rightarrow> False)"

text \<open>The loop of \<open>Validate\<close> over the validators of one field.\<close>

fun validate_loop ::
  "fieldValidator list \<Rightarrow> Value \<Rightarrow> string \<Rightarrow> ValidationError list
     \<Rightarrow> panic + ValidationError list" where
  "validate_loop [] fv name errs = Inr errs"
| "validate_loop (validator # validators) fv name errs =
     (case validate validator fv of
        Inl p \<Rightarrow> Inl p
      | Inr None \<Rightarrow> validate_loop validators fv name errs
      | Inr (Some err) \<Rightarrow>
          validate_loop validators fv name (errs @ [ValidationError name err]))"

text \<open>\<open>Validate\<close>, and its loop over the fields of the struct with the errors appended so
  far. \<open>Inr None\<close> is the nil error. The first four equations are the test
  \<open>t.Kind() != reflect.Struct\<close> on \<open>t := reflect.TypeOf(v)\<close>: the nil interface has the nil
  \<open>Type\<close>, and the call of \<open>Kind\<close> on it panics; a value of another kind than \<open>Struct\<close>
  gives \<open>ErrNotStruct\<close>. In the loop, a member \<open>m\<close> stands for \<open>t.Field(i)\<close>, which is
  \<open>FieldOf m\<close>, and for \<open>vv.Field(i)\<close>, which is \<open>mValue m\<close>. The type assertion on the
  result of the nested call panics on an error that is no \<open>ValidationErrors\<close>.\<close>

function Validate :: "any \<Rightarrow> panic + error option"
and Validate_loop :: "Member list \<Rightarrow> ValidationError list \<Rightarrow> panic + ValidationError list"
where
  "Validate None = Inl NilPointerDereference"
| "Validate (Some (IntValue n)) = Inr (Some ErrNotStruct)"
| "Validate (Some (StringValue s)) = Inr (Some ErrNotStruct)"
| "Validate (Some (OtherValue k)) = Inr (Some ErrNotStruct)"
| "Validate (Some (StructValue ms)) =
     (case Validate_loop ms [] of
        Inl p \<Rightarrow> Inl p
      | Inr errs \<Rightarrow> if length errs = 0 then Inr None else Inr (Some (ValidationErrors errs)))"
| "Validate_loop [] errs = Inr errs"
| "Validate_loop (m # ms) errs =
     (let f = FieldOf m in
      if \<not> needValidation f then Validate_loop ms errs
      else if \<not> IsExported f
      then Validate_loop ms (errs @ [ValidationError (Name f) ErrValidateForUnexportedFields])
      else if KindOf (Type f) = reflect_Struct
      then
        (case Validate (Some (mValue m)) of
           Inl p \<Rightarrow> Inl p
         | Inr None \<Rightarrow> Validate_loop ms errs
         | Inr (Some (ValidationErrors nestedErrs)) \<Rightarrow>
             Validate_loop ms (errs @ map (\<lambda>err. ValidationError (Name f) (VE err)) nestedErrs)
         | Inr (Some _) \<Rightarrow> Inl InterfaceConversion)
      else
        (case parseValidators (Type f) (Get (Tag f) ''validate'') of
           Inl p \<Rightarrow> Inl p
         | Inr (Inl err) \<Rightarrow> Validate_loop ms (errs @ [ValidationError (Name f) err])
         | Inr (Inr validators) \<Rightarrow>
             (case validate_loop validators (mValue m) (Name f) errs of
                Inl p \<Rightarrow> Inl p
              | Inr errs' \<Rightarrow> Validate_loop ms errs')))"
  by pat_completeness auto
termination
proof (relation "measure (\<lambda>x. case x of
                    Inl None \<Rightarrow> 0
                  | Inl (Some v) \<Rightarrow> size v
                  | Inr (ms, errs) \<Rightarrow> size_list size ms)")
  show "wf (measure (\<lambda>x. case x of
                    Inl None \<Rightarrow> 0
                  | Inl (Some v) \<Rightarrow> size v
                  | Inr (ms, errs) \<Rightarrow> size_list size ms))"
    by simp
next
  fix m :: Member and ms :: "Member list" and errs :: "ValidationError list"
  have "size (mValue m) < size m"
    by (cases m) simp
  then show "(Inl (Some (mValue m)), Inr (m # ms, errs))
      \<in> measure (\<lambda>x. case x of
                    Inl None \<Rightarrow> 0
                  | Inl (Some v) \<Rightarrow> size v
                  | Inr (ms, errs) \<Rightarrow> size_list size ms)"
    by simp
qed simp_all

section \<open>Notions used to state the properties\<close>

text \<open>The validators of integer fields, as opposed to those of text fields.\<close>

fun isIntValidator :: "fieldValidator \<Rightarrow> bool" where
  "isIntValidator (intMinValidator _) = True"
| "isIntValidator (intMaxValidator _) = True"
| "isIntValidator (intInValidator _) = True"
| "isIntValidator _ = False"

text \<open>The errors that the loop of \<open>Validate\<close> collects for a list of fields, starting
  from none.\<close>

definition fieldErrors :: "Member list \<Rightarrow> ValidationError list" where
  "fieldErrors ms = (case Validate_loop ms [] of Inr errs \<Rightarrow> errs | Inl p \<Rightarrow> [])"

text \<open>The errors of the validators that a value violates, in the order of the
  validators.\<close>

definition violations :: "fieldValidator list \<Rightarrow> Value \<Rightarrow> error list" where
  "violations validators fv =
     concat (map (\<lambda>validator. case validate validator fv of
                                 Inr (Some err) \<Rightarrow> [err]
                               | _ \<Rightarrow> []) validators)"

text \<open>The character length of which the specification speaks: the number of characters
  (code points) of a UTF-8 encoded string, that is of its bytes that do not continue a
  character (\<open>10xxxxxx\<close>).\<close>

definition isContinuationByte :: "char \<Rightarrow> bool" where
  "isContinuationByte c = (128 \<le> (of_char c :: nat) \<and> (of_char c :: nat) < 192)"

definition characterLength :: "string \<Rightarrow> nat" where
  "characterLength s = length (filter (\<lambda>c. \<not> isContinuationByte c) s)"

text \<open>A clause of an annotation in the words of the specification: its key is what
  precedes the first \<open>:\<close>, its value what follows it. The clause is malformed when it has
  not exactly one \<open>:\<close>, when the key or the value is empty, when the key names no
  constraint of the table, or when the constructor of the constraint rejects the
  value.\<close>

definition clauseKey :: "string \<Rightarrow> string" where
  "clauseKey kv = takeWhile (\<lambda>c. c \<noteq> CHR '':'') kv"

definition clauseValue :: "string \<Rightarrow> string" where
  "clauseValue kv = tl (dropWhile (\<lambda>c. c \<noteq> CHR '':'') kv)"

definition malformedClause :: "(string \<Rightarrow> fieldValidatorCreator option) \<Rightarrow> string \<Rightarrow> bool" where
  "malformedClause fieldValidators kv =
     (count_list kv (CHR '':'') \<noteq> 1 \<or> clauseKey kv = [] \<or> clauseValue kv = [] \<or>
      (case fieldValidators (clauseKey kv) of
         None \<Rightarrow> True
       | Some createValidator \<Rightarrow> isl (createValidator (clauseValue kv))))"

section \<open>The scenarios of the specification and of the test suite\<close>

text \<open>The model computes what the tests of the package expect. The definitions to unfold
  when a concrete call is evaluated:\<close>

lemmas evaluation =
  fieldErrors_def Lookup_def Get_def IsExported_def parseValidators_def
  intValidators_def strValidators_def
  newIntMinValidator_def newIntMaxValidator_def newIntInValidator_def
  newStrLenValidator_def newStrMinValidator_def newStrMaxValidator_def newStrInValidator_def
  parseIntSlice_def Atoi_def ParseUint_def isDigit_def digitVal_def
  fmt_d_def fmt_v_ints_def fmt_v_strings_def digits.simps

lemma scenario_not_a_struct:
  "Validate (Some (OtherValue Pointer)) = Inr (Some ErrNotStruct)"
  "Validate (Some (OtherValue Map)) = Inr (Some ErrNotStruct)"
  "Validate (Some (StringValue ''some string'')) = Inr (Some ErrNotStruct)"
  by simp_all

lemma scenario_no_fields: "Validate (Some (StructValue [])) = Inr None"
  by simp

lemma scenario_untagged_fields:
  "Validate (Some (StructValue
     [Member ''f1'' ''validator'' [] (StringValue []),
      Member ''f2'' ''validator'' [] (StringValue [])])) = Inr None"
  by (simp add: evaluation)

lemma scenario_unexported:
  "map_sum id (map_option Error)
     (Validate (Some (StructValue
        [Member ''foo'' ''validator'' [(''validate'', ''len:10'')] (StringValue [])])))
   = Inr (Some (Error ErrValidateForUnexportedFields))"
  by (simp add: evaluation)

lemma scenario_invalid_syntax:
  "map_sum id (map_option Error)
     (Validate (Some (StructValue
        [Member ''Foo'' [] [(''validate'', ''len:abcdef'')] (StringValue [])])))
   = Inr (Some (Error ErrInvalidValidatorSyntax))"
  by (simp add: evaluation)

lemma scenario_min:
  "Validate (Some (StructValue [Member ''N'' [] [(''validate'', ''min:10'')] (IntValue 5)]))
   = Inr (Some (ValidationErrors [ValidationError ''N'' (Errorf ''5 is less than min allowed 10'')]))"
  by (simp add: evaluation)

lemma scenario_len:
  "Validate (Some (StructValue [Member ''S'' [] [(''validate'', ''len:3'')] (StringValue ''ab'')]))
   = Inr (Some (ValidationErrors [ValidationError ''S'' (Errorf ''len of ab is not equal to 3'')]))"
  "Validate (Some (StructValue [Member ''S'' [] [(''validate'', ''len:3'')] (StringValue ''abc'')]))
   = Inr None"
  by (simp_all add: evaluation)

lemma scenario_in:
  "Validate (Some (StructValue [Member ''S'' [] [(''validate'', ''in:a,b,c'')] (StringValue ''z'')]))
   = Inr (Some (ValidationErrors [ValidationError ''S'' (Errorf ''z is not in [a b c]'')]))"
  "Validate (Some (StructValue [Member ''S'' [] [(''validate'', ''in:a,b,c'')] (StringValue ''b'')]))
   = Inr None"
  by (simp_all add: evaluation)

lemma scenario_wrong_in:
  "map_sum id (map_option Error)
     (Validate (Some (StructValue
        [Member ''InA'' [] [(''validate'', ''in:ab,cd'')] (StringValue ''ef''),
         Member ''InC'' [] [(''validate'', ''in:-1,-3,5,7'')] (IntValue 2),
         Member ''InD'' [] [(''validate'', ''in:5-'')] (IntValue 12),
         Member ''InEmpty'' [] [(''validate'', ''in:'')] (StringValue [])])))
   = Inr (Some (''InA: ef is not in [ab cd]'' @ [CHR 0x0A] @
                ''InC: 2 is not in [-1 -3 5 7]'' @ [CHR 0x0A] @
                ''InD: invalid validator syntax'' @ [CHR 0x0A] @
                ''InEmpty: invalid validator syntax''))"
  by (simp add: evaluation)

lemma scenario_unexported_nested:
  "Validate (Some (StructValue
     [Member ''nested'' ''validator'' []
        (StructValue [Member ''A'' [] [(''validate'', ''min:0;max:5'')] (IntValue 0)])]))
   = Inr (Some (ValidationErrors [ValidationError ''nested'' ErrValidateForUnexportedFields]))"
  by (simp add: evaluation)

section \<open>The traversal returns\<close>

lemma intValidators_cases:
  "intValidators k = Some c \<Longrightarrow> c = newIntMinValidator \<or> c = newIntMaxValidator \<or> c = newIntInValidator"
  by (auto simp: intValidators_def split: if_splits)

lemma strValidators_cases:
  "strValidators k = Some c \<Longrightarrow>
     c = newStrLenValidator \<or> c = newStrMinValidator \<or> c = newStrMaxValidator \<or> c = newStrInValidator"
  by (auto simp: strValidators_def split: if_splits)

lemma intValidators_create:
  "intValidators k = Some c \<Longrightarrow> c v = Inr validator \<Longrightarrow> isIntValidator validator"
  by (auto dest!: intValidators_cases
      simp: newIntMinValidator_def newIntMaxValidator_def newIntInValidator_def
      split: sum.splits)

lemma strValidators_create:
  "strValidators k = Some c \<Longrightarrow> c v = Inr validator \<Longrightarrow> \<not> isIntValidator validator"
  by (auto dest!: strValidators_cases
      simp: newStrLenValidator_def newStrMinValidator_def newStrMaxValidator_def
        newStrInValidator_def
      split: sum.splits)

lemma parse_int_validators:
  "parseValidators_loop intValidators kvs acc = Inr vs \<Longrightarrow> list_all isIntValidator acc
     \<Longrightarrow> list_all isIntValidator vs"
proof (induction kvs arbitrary: acc)
  case Nil
  then show ?case by simp
next
  case (Cons kv kvs)
  then show ?case
    by (auto simp: Let_def split: if_splits option.splits sum.splits
        dest: intValidators_create)
qed

lemma parse_str_validators:
  "parseValidators_loop strValidators kvs acc = Inr vs \<Longrightarrow> list_all (\<lambda>v. \<not> isIntValidator v) acc
     \<Longrightarrow> list_all (\<lambda>v. \<not> isIntValidator v) vs"
proof (induction kvs arbitrary: acc)
  case Nil
  then show ?case by simp
next
  case (Cons kv kvs)
  then show ?case
    by (auto simp: Let_def split: if_splits option.splits sum.splits
        dest: strValidators_create)
qed

lemma validate_int_returns:
  "isIntValidator validator \<Longrightarrow> \<exists>r. validate validator (IntValue n) = Inr r"
  by (cases validator) auto

lemma validate_str_returns:
  "\<not> isIntValidator validator \<Longrightarrow> \<exists>r. validate validator (StringValue s) = Inr r"
  by (cases validator) auto

lemma validate_loop_violations:
  "\<forall>validator\<in>set validators. \<exists>r. validate validator fv = Inr r \<Longrightarrow>
   validate_loop validators fv name errs
     = Inr (errs @ map (ValidationError name) (violations validators fv))"
proof (induction validators arbitrary: errs)
  case Nil
  then show ?case by (simp add: violations_def)
next
  case (Cons validator validators)
  then obtain r where r: "validate validator fv = Inr r" by auto
  from Cons have IH: "\<And>errs. validate_loop validators fv name errs
     = Inr (errs @ map (ValidationError name) (violations validators fv))"
    by simp
  show ?case
    using r by (cases r) (simp_all add: IH violations_def)
qed


lemma needValidation_leaf:
  "needValidation f \<Longrightarrow> KindOf (Type f) \<noteq> reflect_Struct \<Longrightarrow>
     (Type f = IntType \<or> Type f = StringType) \<and> Lookup (Tag f) ''validate'' \<noteq> None"
  by (cases f) (auto split: Type.splits option.splits)

lemma TypeOfValue_Int: "TypeOfValue v = IntType \<Longrightarrow> \<exists>n. v = IntValue n"
  by (cases v) auto

lemma TypeOfValue_String: "TypeOfValue v = StringType \<Longrightarrow> \<exists>s. v = StringValue s"
  by (cases v) auto

lemma TypeOfValue_Struct:
  "KindOf (TypeOfValue v) = reflect_Struct \<Longrightarrow> \<exists>ms. v = StructValue ms"
  by (cases v) auto

lemma Type_FieldOf: "Type (FieldOf m) = TypeOfValue (mValue m)"
  by (cases m) simp

lemma Name_FieldOf: "Name (FieldOf m) = mName m"
  by (cases m) simp

lemma Tag_FieldOf: "Tag (FieldOf m) = mTag m"
  by (cases m) simp

lemma PkgPath_FieldOf: "PkgPath (FieldOf m) = mPkgPath m"
  by (cases m) simp

lemma parsed_validators_return:
  assumes "parseValidators (TypeOfValue fv) tag = Inr (Inr validators)"
  shows "\<forall>validator\<in>set validators. \<exists>r. validate validator fv = Inr r"
proof (cases fv)
  case (IntValue n)
  with assms have "list_all isIntValidator validators"
    by (auto simp: parseValidators_def dest: parse_int_validators)
  with IntValue show ?thesis
    by (auto simp: list_all_iff dest: validate_int_returns)
next
  case (StringValue s)
  with assms have "list_all (\<lambda>v. \<not> isIntValidator v) validators"
    by (auto simp: parseValidators_def dest: parse_str_validators)
  with StringValue show ?thesis
    by (auto simp: list_all_iff dest: validate_str_returns)
next
  case (StructValue ms)
  with assms show ?thesis by (simp add: parseValidators_def)
next
  case (OtherValue k)
  with assms show ?thesis by (simp add: parseValidators_def)
qed

lemma parseValidators_leaf_returns:
  "t = IntType \<or> t = StringType \<Longrightarrow> \<exists>r. parseValidators t tag = Inr r"
  by (auto simp: parseValidators_def)

text \<open>One pass of the loop of \<open>Validate\<close> returns, and appends to the errors it is given
  a list that does not depend on them, as soon as the nested calls do.\<close>

lemma Validate_loop_step:
  assumes nested: "\<And>ms'. mValue m = StructValue ms' \<Longrightarrow>
             \<exists>es. \<forall>errs. Validate_loop ms' errs = Inr (errs @ es)"
      and rest: "\<forall>errs. Validate_loop ms errs = Inr (errs @ es)"
  shows "\<exists>es'. \<forall>errs. Validate_loop (m # ms) errs = Inr (errs @ es')"
proof -
  let ?f = "FieldOf m"
  consider (skip) "\<not> needValidation ?f"
    | (unexported) "needValidation ?f" "\<not> IsExported ?f"
    | (struct) "needValidation ?f" "IsExported ?f" "KindOf (Type ?f) = reflect_Struct"
    | (leaf) "needValidation ?f" "IsExported ?f" "KindOf (Type ?f) \<noteq> reflect_Struct"
    by blast
  then show ?thesis
  proof cases
    case skip
    with rest show ?thesis by (simp add: Let_def)
  next
    case unexported
    with rest show ?thesis by (simp add: Let_def)
  next
    case struct
    then obtain ms' where ms': "mValue m = StructValue ms'"
      using TypeOfValue_Struct by (auto simp: Type_FieldOf)
    from nested [OF ms'] obtain es' where es': "\<And>errs. Validate_loop ms' errs = Inr (errs @ es')"
      by blast
    from es' [of "[]"] have "Validate_loop ms' [] = Inr es'" by simp
    with struct ms' rest show ?thesis
      by (cases "es' = []") (simp_all add: Let_def)
  next
    case leaf
    from needValidation_leaf [OF leaf(1) leaf(3)]
    have t: "TypeOfValue (mValue m) = IntType \<or> TypeOfValue (mValue m) = StringType"
      by (simp add: Type_FieldOf)
    then obtain r where r: "parseValidators (TypeOfValue (mValue m)) (Get (mTag m) ''validate'') = Inr r"
      using parseValidators_leaf_returns by blast
    show ?thesis
    proof (cases r)
      case (Inl err)
      with leaf r rest show ?thesis
        by (simp add: Let_def Type_FieldOf Tag_FieldOf)
    next
      case (Inr validators)
      with r have "\<forall>validator\<in>set validators. \<exists>r. validate validator (mValue m) = Inr r"
        using parsed_validators_return by blast
      then have "\<And>errs. validate_loop validators (mValue m) (mName m) errs
          = Inr (errs @ map (ValidationError (mName m)) (violations validators (mValue m)))"
        by (rule validate_loop_violations)
      with leaf r Inr rest show ?thesis
        by (simp add: Let_def Type_FieldOf Tag_FieldOf Name_FieldOf)
    qed
  qed
qed

lemma Validate_loop_all:
  assumes "\<And>m ms'. m \<in> set ms \<Longrightarrow> mValue m = StructValue ms' \<Longrightarrow>
             \<exists>es. \<forall>errs. Validate_loop ms' errs = Inr (errs @ es)"
  shows "\<exists>es. \<forall>errs. Validate_loop ms errs = Inr (errs @ es)"
  using assms
proof (induction ms)
  case Nil
  then show ?case by simp
next
  case (Cons m ms)
  then obtain es where "\<forall>errs. Validate_loop ms errs = Inr (errs @ es)"
    by (meson list.set_intros(2))
  moreover have "\<And>ms'. mValue m = StructValue ms' \<Longrightarrow>
             \<exists>es. \<forall>errs. Validate_loop ms' errs = Inr (errs @ es)"
    using Cons.prems [of m] by simp
  ultimately show ?case
    using Validate_loop_step by blast
qed

lemma Validate_loop_returns_aux:
  "(\<forall>ms. v = StructValue ms \<longrightarrow> (\<exists>es. \<forall>errs. Validate_loop ms errs = Inr (errs @ es)))"
  "(\<forall>ms. mValue m = StructValue ms \<longrightarrow> (\<exists>es. \<forall>errs. Validate_loop ms errs = Inr (errs @ es)))"
proof (induction v and m)
  case (StructValue ms)
  then show ?case
    using Validate_loop_all [of ms] by blast
qed simp_all

text \<open>The loop of \<open>Validate\<close> never panics: it returns the errors it was given, followed
  by those of the fields.\<close>

lemma Validate_loop_fieldErrors:
  "Validate_loop ms errs = Inr (errs @ fieldErrors ms)"
proof -
  obtain es where es: "\<And>errs. Validate_loop ms errs = Inr (errs @ es)"
    using Validate_loop_returns_aux(1) [of "StructValue ms"] by blast
  from es [of "[]"] have "fieldErrors ms = es"
    by (simp add: fieldErrors_def)
  with es show ?thesis by simp
qed

lemma Validate_struct:
  "Validate (Some (StructValue ms)) =
     Inr (if fieldErrors ms = [] then None else Some (ValidationErrors (fieldErrors ms)))"
  using Validate_loop_fieldErrors [of ms "[]"] by simp

lemma fieldErrors_Nil: "fieldErrors [] = []"
  by (simp add: fieldErrors_def)

lemma fieldErrors_Cons: "fieldErrors (m # ms) = fieldErrors [m] @ fieldErrors ms"
proof -
  have "Validate_loop (m # ms) [] =
      (case Validate_loop [m] [] of Inl p \<Rightarrow> Inl p | Inr errs \<Rightarrow> Validate_loop ms errs)"
    by (simp add: Let_def validate_loop_violations split: sum.splits option.splits error.splits)
  then show ?thesis
    by (simp add: Validate_loop_fieldErrors)
qed

lemma fieldErrors_append: "fieldErrors (ms @ ms') = fieldErrors ms @ fieldErrors ms'"
proof (induction ms)
  case Nil
  then show ?case by (simp add: fieldErrors_Nil)
next
  case (Cons m ms)
  then show ?case
    using fieldErrors_Cons [of m "ms @ ms'"] fieldErrors_Cons [of m ms] by simp
qed

section \<open>The shape of the argument\<close>

lemma Validate_nil_Type: "TypeOf v = None \<Longrightarrow> Validate v = Inl NilPointerDereference"
  by (cases v) (simp_all add: TypeOf_def)

lemma Validate_not_struct:
  "KindOf (TypeOfValue v) \<noteq> reflect_Struct \<Longrightarrow> Validate (Some v) = Inr (Some ErrNotStruct)"
  by (cases v) simp_all

lemma Validate_struct_not_ErrNotStruct:
  "KindOf (TypeOfValue v) = reflect_Struct \<Longrightarrow> Validate (Some v) \<noteq> Inr (Some ErrNotStruct)"
  by (cases v) (simp_all add: Validate_struct del: Validate.simps)

text \<open>
  Claim C1: for every argument whose type is no struct, nil included, \<open>Validate\<close> returns
  \<open>ErrNotStruct\<close>, and for a struct it never does.

  The claim fails on the nil interface: \<open>reflect.TypeOf(nil)\<close> is the nil \<open>Type\<close>, and the
  call \<open>t.Kind()\<close> on it panics, so \<open>Validate(nil)\<close> returns nothing. On every other
  argument the code does what the claim says (\<open>Validate_not_struct\<close>,
  \<open>Validate_struct_not_ErrNotStruct\<close>).
\<close>

theorem Validate_nil_panics:
  "TypeOf None = None \<and> Validate None = Inl NilPointerDereference
     \<and> Validate None \<noteq> Inr (Some ErrNotStruct)"
  by (simp add: TypeOf_def)

section \<open>The rendering of the aggregate\<close>

lemma ValidationError_Error_eq:
  "ValidationError_Error e = Field e @ '': '' @ Error (Err e)"
  by (cases e) simp

lemma Error_single: "Error (ValidationErrors [e]) = Error (Err e)"
  by (cases e) simp

lemma Error_several:
  "length v \<noteq> 1 \<Longrightarrow> Error (ValidationErrors v) = Join (map ValidationError_Error v) [CHR 0x0A]"
proof (cases v)
  case Nil
  then show ?thesis by simp
next
  case (Cons e v')
  assume "length v \<noteq> 1"
  with Cons obtain e' v'' where "v = e # e' # v''"
    by (cases v') auto
  then show ?thesis by simp
qed

text \<open>
  Claim C6: the string of an aggregate of exactly one error is the message of that
  error's cause, without the name of the field; the string of an aggregate of two or
  more errors is the strings \<open><field>: <cause>\<close> of its errors, joined by newlines.
\<close>

theorem aggregate_rendering:
  "Error (ValidationErrors [e]) = Error (Err e) \<and>
   (2 \<le> length v \<longrightarrow>
      Error (ValidationErrors v)
        = Join (map (\<lambda>e. Field e @ '': '' @ Error (Err e)) v) [CHR 0x0A])"
proof -
  have eq: "map ValidationError_Error v = map (\<lambda>e. Field e @ '': '' @ Error (Err e)) v"
    by (rule map_cong) (simp_all add: ValidationError_Error_eq)
  have "Error (ValidationErrors v) = Join (map ValidationError_Error v) [CHR 0x0A]"
    if "2 \<le> length v"
    using that by (intro Error_several) simp
  then show ?thesis
    unfolding eq using Error_single [of e] by blast
qed

theorem aggregate_rendering_witness:
  "Error (ValidationErrors [ValidationError ''A'' (Errorf ''x'')]) = ''x'' \<and>
   (2::nat) \<le> length [ValidationError ''A'' (Errorf ''x''), ValidationError ''B'' ErrInvalidValidatorSyntax] \<and>
   Error (ValidationErrors [ValidationError ''A'' (Errorf ''x''),
                            ValidationError ''B'' ErrInvalidValidatorSyntax])
     = ''A: x'' @ [CHR 0x0A] @ ''B: invalid validator syntax''"
  using aggregate_rendering [of "ValidationError ''A'' (Errorf ''x'')"
      "[ValidationError ''A'' (Errorf ''x''), ValidationError ''B'' ErrInvalidValidatorSyntax]"]
  by simp

section \<open>Splitting and the clauses of an annotation\<close>

lemma Split_not_Nil: "Split s sep \<noteq> []"
  by (induction s) (auto split: list.splits)

lemma length_Split: "length (Split s sep) = Suc (count_list s sep)"
proof (induction s)
  case Nil
  then show ?case by simp
next
  case (Cons c cs)
  then show ?case
    using Split_not_Nil [of cs sep] by (cases "Split cs sep") auto
qed

lemma Split_no_sep: "count_list s sep = 0 \<Longrightarrow> Split s sep = [s]"
  by (induction s) (auto split: if_splits)

lemma Split_first: "Split s sep ! 0 = takeWhile (\<lambda>c. c \<noteq> sep) s"
proof (induction s)
  case Nil
  then show ?case by simp
next
  case (Cons c cs)
  then show ?case
    using Split_not_Nil [of cs sep] by (cases "Split cs sep") auto
qed

lemma Split_second:
  "count_list s sep = 1 \<Longrightarrow> Split s sep ! 1 = tl (dropWhile (\<lambda>c. c \<noteq> sep) s)"
proof (induction s)
  case Nil
  then show ?case by simp
next
  case (Cons c cs)
  show ?case
  proof (cases "c = sep")
    case True
    with Cons.prems have "count_list cs sep = 0" by simp
    with True show ?thesis by (simp add: Split_no_sep)
  next
    case False
    with Cons have "Split cs sep ! 1 = tl (dropWhile (\<lambda>c. c \<noteq> sep) cs)" by simp
    with False show ?thesis
      using Split_not_Nil [of cs sep] by (cases "Split cs sep") auto
  qed
qed

text \<open>One pass of the loop of the parser, with its test on the clause in the words of
  the specification.\<close>

lemma parseValidators_loop_step:
  "parseValidators_loop fieldValidators (kv # kvs) validators =
     (if malformedClause fieldValidators kv then Inl ErrInvalidValidatorSyntax
      else case fieldValidators (clauseKey kv) of
             None \<Rightarrow> Inl ErrInvalidValidatorSyntax
           | Some createValidator \<Rightarrow>
              (case createValidator (clauseValue kv) of
                 Inl err \<Rightarrow> Inl ErrInvalidValidatorSyntax
               | Inr validator \<Rightarrow> parseValidators_loop fieldValidators kvs (validators @ [validator])))"
proof (cases "count_list kv (CHR '':'') = 1")
  case True
  then show ?thesis
    by (auto simp: malformedClause_def clauseKey_def clauseValue_def Let_def length_Split
        Split_first Split_second [simplified] split: option.splits sum.splits)
next
  case False
  then show ?thesis
    by (simp add: malformedClause_def Let_def length_Split)
qed

lemma parseValidators_loop_malformed:
  "\<exists>kv\<in>set kvs. malformedClause fieldValidators kv \<Longrightarrow>
     parseValidators_loop fieldValidators kvs validators = Inl ErrInvalidValidatorSyntax"
proof (induction kvs arbitrary: validators)
  case Nil
  then show ?case by simp
next
  case (Cons kv kvs)
  show ?case
  proof (cases "malformedClause fieldValidators kv")
    case True
    then show ?thesis by (simp only: parseValidators_loop_step if_True)
  next
    case False
    with Cons.prems have "\<exists>kv\<in>set kvs. malformedClause fieldValidators kv" by simp
    then have "\<And>validators. parseValidators_loop fieldValidators kvs validators
        = Inl ErrInvalidValidatorSyntax"
      by (rule Cons.IH)
    then show ?thesis
      by (simp only: parseValidators_loop_step) (simp split: option.splits sum.splits)
  qed
qed

lemma parseValidators_loop_wellformed:
  "\<forall>kv\<in>set kvs. \<not> malformedClause fieldValidators kv \<Longrightarrow>
     \<exists>vs. length vs = length kvs \<and>
       parseValidators_loop fieldValidators kvs validators = Inr (validators @ vs)"
proof (induction kvs arbitrary: validators)
  case Nil
  then show ?case by simp
next
  case (Cons kv kvs)
  then have wf: "\<not> malformedClause fieldValidators kv" by simp
  then obtain c validator where c: "fieldValidators (clauseKey kv) = Some c"
      and v: "c (clauseValue kv) = Inr validator"
    by (auto simp: malformedClause_def split: option.splits) (metis isl_def sum.exhaust)
  from Cons obtain vs where vs: "length vs = length kvs"
      "parseValidators_loop fieldValidators kvs (validators @ [validator])
         = Inr ((validators @ [validator]) @ vs)"
    by (metis list.set_intros(2))
  have "parseValidators_loop fieldValidators (kv # kvs) validators
      = Inr (validators @ validator # vs)"
    using wf c v vs(2) by (simp only: parseValidators_loop_step) simp
  with vs(1) show ?case
    by (intro exI [of _ "validator # vs"]) simp
qed

lemma parseValidators_loop_fails_iff:
  "(parseValidators_loop fieldValidators kvs [] = Inl ErrInvalidValidatorSyntax)
     = (\<exists>kv\<in>set kvs. malformedClause fieldValidators kv)"
proof (cases "\<exists>kv\<in>set kvs. malformedClause fieldValidators kv")
  case True
  then show ?thesis
    using parseValidators_loop_malformed [of kvs fieldValidators "[]"] by simp
next
  case False
  then have "\<forall>kv\<in>set kvs. \<not> malformedClause fieldValidators kv" by simp
  then obtain vs where "parseValidators_loop fieldValidators kvs [] = Inr ([] @ vs)"
    using parseValidators_loop_wellformed [of kvs fieldValidators "[]"] by blast
  with False show ?thesis by simp
qed

section \<open>What each field contributes\<close>

lemma Validate_loop_split:
  "Validate_loop (ms @ m # ms') errs
     = Inr (errs @ fieldErrors ms @ fieldErrors [m] @ fieldErrors ms')"
  using fieldErrors_append [of ms "m # ms'"] fieldErrors_Cons [of m ms']
  by (simp add: Validate_loop_fieldErrors)

text \<open>What one field contributes, branch by branch.\<close>

lemma fieldErrors_skipped:
  "\<not> needValidation (FieldOf m) \<Longrightarrow> fieldErrors [m] = []"
  by (simp add: fieldErrors_def)

lemma fieldErrors_unexported:
  "needValidation (FieldOf m) \<Longrightarrow> \<not> IsExported (FieldOf m) \<Longrightarrow>
     fieldErrors [m] = [ValidationError (mName m) ErrValidateForUnexportedFields]"
  by (simp add: fieldErrors_def Name_FieldOf)

lemma needValidation_struct:
  "needValidation (FieldOf m) \<Longrightarrow> mValue m = StructValue ms \<Longrightarrow>
     \<exists>m'\<in>set ms. needValidation (FieldOf m')"
  by (cases m) (auto simp: list_ex_iff)

lemma fieldErrors_no_annotation:
  "\<forall>m\<in>set ms. \<not> needValidation (FieldOf m) \<Longrightarrow> fieldErrors ms = []"
proof (induction ms)
  case Nil
  then show ?case by (simp add: fieldErrors_Nil)
next
  case (Cons m ms)
  then show ?case
    using fieldErrors_Cons [of m ms] by (simp add: fieldErrors_skipped)
qed

lemma fieldErrors_nested_call:
  assumes "needValidation (FieldOf m)" and "IsExported (FieldOf m)"
      and "mValue m = StructValue ms"
  shows "fieldErrors [m] =
     (case Validate (Some (mValue m)) of
        Inr (Some (ValidationErrors nestedErrs)) \<Rightarrow>
          map (\<lambda>err. ValidationError (mName m) (VE err)) nestedErrs
      | _ \<Rightarrow> [])"
proof -
  have "KindOf (Type (FieldOf m)) = reflect_Struct"
    using assms(3) by (simp add: Type_FieldOf)
  with assms show ?thesis
    unfolding fieldErrors_def
    by (simp add: Let_def Name_FieldOf Validate_struct del: Validate.simps)
qed

lemma fieldErrors_nested:
  assumes "IsExported (FieldOf m)" and "mValue m = StructValue ms"
  shows "fieldErrors [m] = map (\<lambda>err. ValidationError (mName m) (VE err)) (fieldErrors ms)"
proof (cases "needValidation (FieldOf m)")
  case True
  from fieldErrors_nested_call [OF True assms] show ?thesis
    by (simp add: assms(2) Validate_struct del: Validate.simps)
next
  case False
  then have "\<forall>m'\<in>set ms. \<not> needValidation (FieldOf m')"
    using assms(2) by (cases m) (auto simp: list_ex_iff)
  then have "fieldErrors ms = []"
    by (rule fieldErrors_no_annotation)
  with False show ?thesis
    by (simp add: fieldErrors_skipped)
qed

lemma parse_success_leaf:
  assumes "parseValidators (TypeOfValue (mValue m)) tag = Inr r"
      and "Lookup (mTag m) ''validate'' = Some tag"
  shows "needValidation (FieldOf m)" and "KindOf (Type (FieldOf m)) \<noteq> reflect_Struct"
proof -
  have "TypeOfValue (mValue m) = IntType \<or> TypeOfValue (mValue m) = StringType"
    using assms(1) by (cases "mValue m") (simp_all add: parseValidators_def)
  then show "needValidation (FieldOf m)" and "KindOf (Type (FieldOf m)) \<noteq> reflect_Struct"
    using assms(2) by (cases m; auto)+
qed

lemma fieldErrors_malformed:
  assumes "IsExported (FieldOf m)"
      and "Lookup (mTag m) ''validate'' = Some tag"
      and "parseValidators (TypeOfValue (mValue m)) tag = Inr (Inl err)"
  shows "fieldErrors [m] = [ValidationError (mName m) err]"
  using assms parse_success_leaf [OF assms(3) assms(2)]
  by (simp add: fieldErrors_def Let_def Type_FieldOf Tag_FieldOf Name_FieldOf Get_def)

lemma fieldErrors_leaf:
  assumes "IsExported (FieldOf m)"
      and "Lookup (mTag m) ''validate'' = Some tag"
      and "parseValidators (TypeOfValue (mValue m)) tag = Inr (Inr validators)"
  shows "fieldErrors [m] = map (ValidationError (mName m)) (violations validators (mValue m))"
proof -
  have "\<forall>validator\<in>set validators. \<exists>r. validate validator (mValue m) = Inr r"
    using assms(3) by (rule parsed_validators_return)
  then have "validate_loop validators (mValue m) (mName m) []
      = Inr (map (ValidationError (mName m)) (violations validators (mValue m)))"
    using validate_loop_violations [of validators "mValue m" "mName m" "[]"] by simp
  then show ?thesis
    using assms parse_success_leaf [OF assms(3) assms(2)]
    by (simp add: fieldErrors_def Let_def Type_FieldOf Tag_FieldOf Name_FieldOf Get_def)
qed

lemma length_violations:
  "\<forall>validator\<in>set vs. \<exists>r. validate validator fv = Inr r \<Longrightarrow>
     length (violations vs fv) = length (filter (\<lambda>validator. validate validator fv \<noteq> Inr None) vs)"
proof (induction vs)
  case Nil
  then show ?case by (simp add: violations_def)
next
  case (Cons a vs)
  then obtain r where "validate a fv = Inr r" by auto
  with Cons show ?case
    by (cases r) (simp_all add: violations_def)
qed

lemma fieldErrors_concat: "fieldErrors ms = concat (map (\<lambda>m. fieldErrors [m]) ms)"
proof (induction ms)
  case Nil
  then show ?case by (simp add: fieldErrors_Nil)
next
  case (Cons m ms)
  then show ?case
    using fieldErrors_Cons [of m ms] by simp
qed

lemma fieldErrors_Field: "e \<in> set (fieldErrors [m]) \<Longrightarrow> Field e = mName m"
proof -
  assume e: "e \<in> set (fieldErrors [m])"
  let ?f = "FieldOf m"
  consider (skip) "\<not> needValidation ?f"
    | (unexported) "needValidation ?f" "\<not> IsExported ?f"
    | (struct) "needValidation ?f" "IsExported ?f" "KindOf (Type ?f) = reflect_Struct"
    | (leaf) "needValidation ?f" "IsExported ?f" "KindOf (Type ?f) \<noteq> reflect_Struct"
    by blast
  then show ?thesis
  proof cases
    case skip
    with e show ?thesis by (simp add: fieldErrors_skipped)
  next
    case unexported
    with e show ?thesis by (simp add: fieldErrors_unexported)
  next
    case struct
    then obtain ms where "mValue m = StructValue ms"
      using TypeOfValue_Struct by (auto simp: Type_FieldOf)
    with struct e show ?thesis
      by (auto simp: fieldErrors_nested)
  next
    case leaf
    from needValidation_leaf [OF leaf(1) leaf(3)]
    have t: "TypeOfValue (mValue m) = IntType \<or> TypeOfValue (mValue m) = StringType"
      and "Lookup (mTag m) ''validate'' \<noteq> None"
      by (simp_all add: Type_FieldOf Tag_FieldOf)
    then obtain tag where tag: "Lookup (mTag m) ''validate'' = Some tag" by auto
    from t obtain r where r: "parseValidators (TypeOfValue (mValue m)) tag = Inr r"
      using parseValidators_leaf_returns by blast
    show ?thesis
    proof (cases r)
      case (Inl err)
      with e r tag leaf show ?thesis by (auto simp: fieldErrors_malformed)
    next
      case (Inr validators)
      with e r tag leaf show ?thesis by (auto simp: fieldErrors_leaf)
    qed
  qed
qed

lemma Validate_not_empty_aggregate: "Validate v \<noteq> Inr (Some (ValidationErrors []))"
proof (cases v)
  case None
  then show ?thesis by simp
next
  case (Some x)
  then show ?thesis
    by (cases x) (simp_all add: Validate_struct del: Validate.simps(5))
qed

lemma Validate_returns: "\<exists>r. Validate (Some v) = Inr r"
  by (cases v) (simp_all add: Validate_struct del: Validate.simps(5))

section \<open>The constraints on text\<close>

lemma characterLength_single_byte:
  "\<forall>c\<in>set s. (of_char c :: nat) < 128 \<Longrightarrow> characterLength s = length s"
  by (induction s) (auto simp: characterLength_def isContinuationByte_def)

text \<open>
  Claim C2, as stated: the constraints \<open>min\<close>, \<open>max\<close> and \<open>len\<close> on a text compare the
  number of its characters with their parameter, also when the text is not ASCII.

  This fails on the text that consists of the letter e with an acute accent, one
  character that UTF-8 encodes in the two bytes \<open>C3 A9\<close>: \<open>len:1\<close> reports a violation,
  because \<open>len(val)\<close> counts bytes.
\<close>

theorem text_length_is_not_character_length:
  "\<not> ((validate (strLenValidator 1) (StringValue [CHR 0xC3, CHR 0xA9]) \<noteq> Inr None)
        = (int (characterLength [CHR 0xC3, CHR 0xA9]) \<noteq> 1))"
  by (simp add: characterLength_def isContinuationByte_def)

text \<open>
  Claim C2, amended: for every text and every parameter \<open>b\<close>, the constraints compare the
  length of the text in bytes: \<open>min\<close> is violated iff that length is below \<open>b\<close>, \<open>max\<close> iff
  it is above \<open>b\<close>, \<open>len\<close> iff it differs from \<open>b\<close>. (On a text of one-byte characters
  this is the number of characters, \<open>characterLength_single_byte\<close>.)
\<close>

theorem text_constraints_use_byte_length:
  "(\<exists>r. validate (strMinValidator b) (StringValue s) = Inr r
        \<and> (r \<noteq> None) = (int (length s) < b)) \<and>
   (\<exists>r. validate (strMaxValidator b) (StringValue s) = Inr r
        \<and> (r \<noteq> None) = (int (length s) > b)) \<and>
   (\<exists>r. validate (strLenValidator b) (StringValue s) = Inr r
        \<and> (r \<noteq> None) = (int (length s) \<noteq> b))"
  by simp

section \<open>The constraints of one field\<close>

text \<open>
  Claim C3: when the annotation of a leaf field parses into a sequence of constraints,
  every constraint is evaluated on the value of the field, whatever the earlier ones
  found, and every violated constraint gives exactly one error of that field: \<open>k\<close>
  violated constraints give \<open>k\<close> errors, in the order of the constraints.
\<close>

theorem every_constraint_evaluated:
  assumes "IsExported (FieldOf m)"
      and "Lookup (mTag m) ''validate'' = Some tag"
      and "parseValidators (TypeOfValue (mValue m)) tag = Inr (Inr validators)"
  shows "(\<forall>validator\<in>set validators. \<exists>r. validate validator (mValue m) = Inr r) \<and>
         fieldErrors [m] = map (ValidationError (mName m)) (violations validators (mValue m)) \<and>
         length (fieldErrors [m])
           = length (filter (\<lambda>validator. validate validator (mValue m) \<noteq> Inr None) validators) \<and>
         Validate_loop (ms @ m # ms') errs
           = Inr (errs @ fieldErrors ms
                  @ map (ValidationError (mName m)) (violations validators (mValue m))
                  @ fieldErrors ms')"
proof -
  have ret: "\<forall>validator\<in>set validators. \<exists>r. validate validator (mValue m) = Inr r"
    using assms(3) by (rule parsed_validators_return)
  have errs: "fieldErrors [m] = map (ValidationError (mName m)) (violations validators (mValue m))"
    using assms by (rule fieldErrors_leaf)
  have "length (fieldErrors [m])
      = length (filter (\<lambda>validator. validate validator (mValue m) \<noteq> Inr None) validators)"
    using length_violations [OF ret] errs by simp
  moreover have "Validate_loop (ms @ m # ms') errs
           = Inr (errs @ fieldErrors ms
                  @ map (ValidationError (mName m)) (violations validators (mValue m))
                  @ fieldErrors ms')"
    using Validate_loop_split [of ms m ms' errs] errs by simp
  ultimately show ?thesis
    using ret errs by blast
qed

lemma parse_example:
  "parseValidators IntType ''min:5;max:10;in:2,4,12''
     = Inr (Inr [intMinValidator 5, intMaxValidator 10, intInValidator [2, 4, 12]])"
  by (simp add: parseValidators_def intValidators_def newIntMinValidator_def
      newIntMaxValidator_def newIntInValidator_def parseIntSlice_def
      Atoi_def ParseUint_def isDigit_def digitVal_def)

theorem every_constraint_evaluated_witness:
  "IsExported (FieldOf (Member ''MinInInt'' [] [(''validate'', ''min:5;max:10;in:2,4,12'')] (IntValue 1))) \<and>
   Lookup (mTag (Member ''MinInInt'' [] [(''validate'', ''min:5;max:10;in:2,4,12'')] (IntValue 1)))
       ''validate'' = Some ''min:5;max:10;in:2,4,12'' \<and>
   parseValidators
       (TypeOfValue (mValue (Member ''MinInInt'' [] [(''validate'', ''min:5;max:10;in:2,4,12'')] (IntValue 1))))
       ''min:5;max:10;in:2,4,12''
     = Inr (Inr [intMinValidator 5, intMaxValidator 10, intInValidator [2, 4, 12]]) \<and>
   fieldErrors [Member ''MinInInt'' [] [(''validate'', ''min:5;max:10;in:2,4,12'')] (IntValue 1)]
     = [ValidationError ''MinInInt'' (Errorf ''1 is less than min allowed 5''),
        ValidationError ''MinInInt'' (Errorf ''1 is not in [2 4 12]'')]"
proof -
  let ?m = "Member ''MinInInt'' [] [(''validate'', ''min:5;max:10;in:2,4,12'')] (IntValue 1)"
  have h1: "IsExported (FieldOf ?m)"
    by (simp add: IsExported_def)
  have h2: "Lookup (mTag ?m) ''validate'' = Some ''min:5;max:10;in:2,4,12''"
    by (simp add: Lookup_def)
  have h3: "parseValidators (TypeOfValue (mValue ?m)) ''min:5;max:10;in:2,4,12''
     = Inr (Inr [intMinValidator 5, intMaxValidator 10, intInValidator [2, 4, 12]])"
    using parse_example by simp
  have "violations [intMinValidator 5, intMaxValidator 10, intInValidator [2, 4, 12]] (IntValue 1)
      = [Errorf ''1 is less than min allowed 5'', Errorf ''1 is not in [2 4 12]'']"
    by (simp add: violations_def fmt_d_def fmt_v_ints_def digits.simps)
  with h1 h2 h3 every_constraint_evaluated [OF h1 h2 h3] show ?thesis
    by simp
qed

section \<open>Malformed annotations\<close>

text \<open>
  Claim C4: parsing an annotation is all or nothing. For a field of kind integer or text
  (the kinds the parser accepts), if some clause between \<open>;\<close> has not exactly one \<open>:\<close>,
  or an empty key, or an empty value, or a key that names no constraint of the kind, or
  a value that the constructor of the constraint rejects, then the parser fails with
  \<open>ErrInvalidValidatorSyntax\<close> for the whole annotation, and \<open>Validate\<close> appends exactly
  that one error for the field, and no error of a constraint.
\<close>

theorem malformed_annotation_all_or_nothing:
  assumes kind: "KindOf t = reflect_Int \<or> KindOf t = reflect_String"
      and bad: "\<exists>kv\<in>set (Split tag (CHR '';'')).
                  malformedClause (if KindOf t = reflect_Int then intValidators else strValidators) kv"
  shows "parseValidators t tag = Inr (Inl ErrInvalidValidatorSyntax) \<and>
         (IsExported (FieldOf m) \<and> TypeOfValue (mValue m) = t \<and>
          Lookup (mTag m) ''validate'' = Some tag \<longrightarrow>
            fieldErrors [m] = [ValidationError (mName m) ErrInvalidValidatorSyntax] \<and>
            Validate_loop (ms @ m # ms') errs
              = Inr (errs @ fieldErrors ms
                     @ [ValidationError (mName m) ErrInvalidValidatorSyntax]
                     @ fieldErrors ms'))"
proof -
  have parse: "parseValidators t tag = Inr (Inl ErrInvalidValidatorSyntax)"
    using kind
  proof
    assume "KindOf t = reflect_Int"
    with bad show ?thesis
      by (simp add: parseValidators_def parseValidators_loop_malformed)
  next
    assume "KindOf t = reflect_String"
    with bad show ?thesis
      by (simp add: parseValidators_def parseValidators_loop_malformed)
  qed
  have "fieldErrors [m] = [ValidationError (mName m) ErrInvalidValidatorSyntax] \<and>
        Validate_loop (ms @ m # ms') errs
          = Inr (errs @ fieldErrors ms
                 @ [ValidationError (mName m) ErrInvalidValidatorSyntax]
                 @ fieldErrors ms')"
    if m: "IsExported (FieldOf m)" "TypeOfValue (mValue m) = t"
      "Lookup (mTag m) ''validate'' = Some tag"
  proof -
    have "fieldErrors [m] = [ValidationError (mName m) ErrInvalidValidatorSyntax]"
      using m parse by (intro fieldErrors_malformed) simp_all
    then show ?thesis
      using Validate_loop_split [of ms m ms' errs] by simp
  qed
  with parse show ?thesis by blast
qed

theorem malformed_annotation_all_or_nothing_witness:
  "(KindOf StringType = reflect_Int \<or> KindOf StringType = reflect_String) \<and>
   ''len:abcdef'' \<in> set (Split ''min:1;len:abcdef'' (CHR '';'')) \<and>
   malformedClause strValidators ''len:abcdef'' \<and>
   parseValidators StringType ''min:1;len:abcdef'' = Inr (Inl ErrInvalidValidatorSyntax) \<and>
   fieldErrors [Member ''Foo'' [] [(''validate'', ''min:1;len:abcdef'')] (StringValue '''')]
     = [ValidationError ''Foo'' ErrInvalidValidatorSyntax]"
proof -
  let ?m = "Member ''Foo'' [] [(''validate'', ''min:1;len:abcdef'')] (StringValue '''')"
  have kind: "KindOf StringType = reflect_Int \<or> KindOf StringType = reflect_String"
    by simp
  have mem: "''len:abcdef'' \<in> set (Split ''min:1;len:abcdef'' (CHR '';''))"
    by simp
  have mal: "malformedClause strValidators ''len:abcdef''"
    by (simp add: malformedClause_def clauseKey_def clauseValue_def strValidators_def
        newStrLenValidator_def Atoi_def ParseUint_def isDigit_def)
  have bad: "\<exists>kv\<in>set (Split ''min:1;len:abcdef'' (CHR '';'')).
      malformedClause (if KindOf StringType = reflect_Int then intValidators else strValidators) kv"
    using mem mal by (intro bexI [of _ "''len:abcdef''"]) simp_all
  have m: "IsExported (FieldOf ?m) \<and> TypeOfValue (mValue ?m) = StringType \<and>
      Lookup (mTag ?m) ''validate'' = Some ''min:1;len:abcdef''"
    by (simp add: IsExported_def Lookup_def)
  from malformed_annotation_all_or_nothing [OF kind bad, of ?m "[]" "[]" "[]"] m
  have "parseValidators StringType ''min:1;len:abcdef'' = Inr (Inl ErrInvalidValidatorSyntax)"
    and "fieldErrors [?m] = [ValidationError ''Foo'' ErrInvalidValidatorSyntax]"
    by simp_all
  with kind mem mal show ?thesis by blast
qed

section \<open>Nested structs\<close>

text \<open>
  Claim C5: for an (exported) field that is itself a struct, \<open>Validate\<close> calls itself on
  the value of the field, and every error of the nested aggregate is wrapped with the
  name of that field alone; so an error in a struct nested twice appears once, wrapped
  with both names around the cause, and a nested call that finds no error contributes
  nothing.
\<close>

theorem nested_errors_are_wrapped:
  assumes "IsExported (FieldOf m)" and "mValue m = StructValue ms"
  shows "fieldErrors [m] =
           (case Validate (Some (mValue m)) of
              Inr (Some (ValidationErrors nestedErrs)) \<Rightarrow>
                map (\<lambda>err. ValidationError (mName m) (VE err)) nestedErrs
            | _ \<Rightarrow> []) \<and>
         Validate (Some (mValue m))
           = Inr (if fieldErrors ms = [] then None else Some (ValidationErrors (fieldErrors ms))) \<and>
         fieldErrors [m] = map (\<lambda>err. ValidationError (mName m) (VE err)) (fieldErrors ms) \<and>
         Validate_loop (before @ m # after) errs
           = Inr (errs @ fieldErrors before
                  @ map (\<lambda>err. ValidationError (mName m) (VE err)) (fieldErrors ms)
                  @ fieldErrors after) \<and>
         (Validate (Some (mValue m)) = Inr None \<longrightarrow> fieldErrors [m] = []) \<and>
         (ms = ms1 @ m' # ms2 \<and> IsExported (FieldOf m') \<and> mValue m' = StructValue ms' \<longrightarrow>
            fieldErrors [m] =
              map (\<lambda>err. ValidationError (mName m) (VE err)) (fieldErrors ms1)
              @ map (\<lambda>err. ValidationError (mName m) (VE (ValidationError (mName m') (VE err))))
                  (fieldErrors ms')
              @ map (\<lambda>err. ValidationError (mName m) (VE err)) (fieldErrors ms2))"
proof -
  have wrapped: "fieldErrors [m] = map (\<lambda>err. ValidationError (mName m) (VE err)) (fieldErrors ms)"
    using assms by (rule fieldErrors_nested)
  have result: "Validate (Some (mValue m))
      = Inr (if fieldErrors ms = [] then None else Some (ValidationErrors (fieldErrors ms)))"
    using assms(2) by (simp add: Validate_struct del: Validate.simps)
  have call: "fieldErrors [m] =
           (case Validate (Some (mValue m)) of
              Inr (Some (ValidationErrors nestedErrs)) \<Rightarrow>
                map (\<lambda>err. ValidationError (mName m) (VE err)) nestedErrs
            | _ \<Rightarrow> [])"
    unfolding result wrapped by simp
  have none: "fieldErrors [m] = []" if "Validate (Some (mValue m)) = Inr None"
    using that unfolding result wrapped by (simp split: if_splits)
  have twice: "fieldErrors [m] =
              map (\<lambda>err. ValidationError (mName m) (VE err)) (fieldErrors ms1)
              @ map (\<lambda>err. ValidationError (mName m) (VE (ValidationError (mName m') (VE err))))
                  (fieldErrors ms')
              @ map (\<lambda>err. ValidationError (mName m) (VE err)) (fieldErrors ms2)"
    if "ms = ms1 @ m' # ms2" "IsExported (FieldOf m')" "mValue m' = StructValue ms'"
  proof -
    have "fieldErrors [m'] = map (\<lambda>err. ValidationError (mName m') (VE err)) (fieldErrors ms')"
      using that(2,3) by (rule fieldErrors_nested)
    moreover have "fieldErrors ms = fieldErrors ms1 @ fieldErrors [m'] @ fieldErrors ms2"
      using that(1) fieldErrors_append [of ms1 "m' # ms2"] fieldErrors_Cons [of m' ms2] by simp
    ultimately show ?thesis
      unfolding wrapped by simp
  qed
  have loop: "Validate_loop (before @ m # after) errs
           = Inr (errs @ fieldErrors before
                  @ map (\<lambda>err. ValidationError (mName m) (VE err)) (fieldErrors ms)
                  @ fieldErrors after)"
    using Validate_loop_split [of before m after errs] wrapped by simp
  from call result wrapped loop none twice show ?thesis by blast
qed

theorem nested_errors_are_wrapped_witness:
  "IsExported (FieldOf (Member ''OuterNested'' [] []
      (StructValue [Member ''InnerNested'' [] []
         (StructValue [Member ''A'' [] [(''validate'', ''min:1;max:2'')] (IntValue 0)])]))) \<and>
   Validate (Some (StructValue [Member ''OuterNested'' [] []
      (StructValue [Member ''InnerNested'' [] []
         (StructValue [Member ''A'' [] [(''validate'', ''min:1;max:2'')] (IntValue 0)])])]))
     = Inr (Some (ValidationErrors
         [ValidationError ''OuterNested''
            (VE (ValidationError ''InnerNested''
               (VE (ValidationError ''A'' (Errorf ''0 is less than min allowed 1'')))))]))"
proof -
  let ?a = "Member ''A'' [] [(''validate'', ''min:1;max:2'')] (IntValue 0)"
  let ?inner = "Member ''InnerNested'' [] [] (StructValue [?a])"
  let ?outer = "Member ''OuterNested'' [] [] (StructValue [?inner])"
  have a: "fieldErrors [?a] = [ValidationError ''A'' (Errorf ''0 is less than min allowed 1'')]"
    by (simp add: fieldErrors_def Lookup_def Get_def IsExported_def parseValidators_def
        intValidators_def newIntMinValidator_def newIntMaxValidator_def
        Atoi_def ParseUint_def isDigit_def digitVal_def fmt_d_def digits.simps)
  have h1: "IsExported (FieldOf ?outer)"
    by (simp add: IsExported_def)
  have h2: "mValue ?outer = StructValue [?inner]"
    by simp
  have h3: "[?inner] = [] @ ?inner # [] \<and> IsExported (FieldOf ?inner)
      \<and> mValue ?inner = StructValue [?a]"
    by (simp add: IsExported_def)
  note twice = nested_errors_are_wrapped [OF h1 h2, where ?ms1.0 = "[]" and m' = ?inner
      and ?ms2.0 = "[]" and ms' = "[?a]", THEN conjunct2, THEN conjunct2, THEN conjunct2,
      THEN conjunct2, THEN conjunct2, THEN mp, OF h3]
  have "fieldErrors [?outer] =
      [ValidationError ''OuterNested''
            (VE (ValidationError ''InnerNested''
               (VE (ValidationError ''A'' (Errorf ''0 is less than min allowed 1'')))))]"
    unfolding twice a fieldErrors_Nil by simp
  then show ?thesis
    using h1 by (simp add: Validate_struct del: Validate.simps)
qed

section \<open>Unexported fields\<close>

text \<open>
  Claim C7: a field that is not exported and needs validation gives exactly one error,
  \<open>ErrValidateForUnexportedFields\<close> with its name, whatever its value and its
  annotation are, and the traversal goes on with the remaining fields.
\<close>

theorem unexported_field_error:
  assumes "needValidation (FieldOf m)" and "\<not> IsExported (FieldOf m)"
  shows "fieldErrors [m] = [ValidationError (mName m) ErrValidateForUnexportedFields] \<and>
         Validate_loop (ms @ m # ms') errs
           = Inr (errs @ fieldErrors ms
                  @ [ValidationError (mName m) ErrValidateForUnexportedFields]
                  @ fieldErrors ms') \<and>
         (TypeOfValue v = TypeOfValue (mValue m) \<longrightarrow>
            fieldErrors [Member (mName m) (mPkgPath m) (mTag m) v]
              = [ValidationError (mName m) ErrValidateForUnexportedFields])"
proof -
  have one: "fieldErrors [m] = [ValidationError (mName m) ErrValidateForUnexportedFields]"
    using assms by (rule fieldErrors_unexported)
  have other: "fieldErrors [Member (mName m) (mPkgPath m) (mTag m) v]
              = [ValidationError (mName m) ErrValidateForUnexportedFields]"
    if "TypeOfValue v = TypeOfValue (mValue m)"
  proof -
    have "FieldOf (Member (mName m) (mPkgPath m) (mTag m) v) = FieldOf m"
      using that by (cases m) simp
    with assms show ?thesis
      using fieldErrors_unexported [of "Member (mName m) (mPkgPath m) (mTag m) v"] by simp
  qed
  from one other show ?thesis
    using Validate_loop_split [of ms m ms' errs] by simp
qed

theorem unexported_field_error_witness:
  "needValidation (FieldOf (Member ''foo'' ''validator'' [(''validate'', ''len:abc'')] (StringValue ''x''))) \<and>
   \<not> IsExported (FieldOf (Member ''foo'' ''validator'' [(''validate'', ''len:abc'')] (StringValue ''x''))) \<and>
   fieldErrors [Member ''foo'' ''validator'' [(''validate'', ''len:abc'')] (StringValue ''x'')]
     = [ValidationError ''foo'' ErrValidateForUnexportedFields] \<and>
   TypeOfValue (StringValue ''yz'') = TypeOfValue (StringValue ''x'') \<and>
   fieldErrors [Member ''foo'' ''validator'' [(''validate'', ''len:abc'')] (StringValue ''yz'')]
     = [ValidationError ''foo'' ErrValidateForUnexportedFields]"
proof -
  let ?m = "Member ''foo'' ''validator'' [(''validate'', ''len:abc'')] (StringValue ''x'')"
  have h1: "needValidation (FieldOf ?m)"
    by (simp add: Lookup_def)
  have h2: "\<not> IsExported (FieldOf ?m)"
    by (simp add: IsExported_def)
  from unexported_field_error [OF h1 h2, where v = "StringValue ''yz''" and ms = "[]"
      and ms' = "[]" and errs = "[]"] h1 h2
  show ?thesis by simp
qed

section \<open>The aggregate\<close>

text \<open>
  Claim C8: for a struct, the aggregate lists the errors of the fields in the order of
  their declaration (every error carries the name of its field), and those of one field
  in the order of its constraints; when there is no error, in particular when no field
  needs validation, \<open>Validate\<close> returns nil and never an empty aggregate.
\<close>

theorem aggregate_order_and_success:
  "Validate (Some (StructValue ms))
     = Inr (if fieldErrors ms = [] then None else Some (ValidationErrors (fieldErrors ms))) \<and>
   fieldErrors ms = concat (map (\<lambda>m. fieldErrors [m]) ms) \<and>
   (\<forall>m\<in>set ms. \<forall>e\<in>set (fieldErrors [m]). Field e = mName m) \<and>
   (IsExported (FieldOf m) \<and> Lookup (mTag m) ''validate'' = Some tag \<and>
    parseValidators (TypeOfValue (mValue m)) tag = Inr (Inr validators) \<longrightarrow>
      fieldErrors [m] = map (ValidationError (mName m)) (violations validators (mValue m))) \<and>
   Validate v \<noteq> Inr (Some (ValidationErrors [])) \<and>
   ((\<forall>m\<in>set ms. \<not> needValidation (FieldOf m)) \<longrightarrow> Validate (Some (StructValue ms)) = Inr None)"
proof -
  have "Validate (Some (StructValue ms)) = Inr None"
    if "\<forall>m\<in>set ms. \<not> needValidation (FieldOf m)"
    using fieldErrors_no_annotation [OF that] by (simp add: Validate_struct del: Validate.simps)
  moreover have "fieldErrors [m] = map (ValidationError (mName m)) (violations validators (mValue m))"
    if "IsExported (FieldOf m)" "Lookup (mTag m) ''validate'' = Some tag"
      "parseValidators (TypeOfValue (mValue m)) tag = Inr (Inr validators)"
    using that by (rule fieldErrors_leaf)
  moreover have "\<forall>m\<in>set ms. \<forall>e\<in>set (fieldErrors [m]). Field e = mName m"
    using fieldErrors_Field by blast
  ultimately show ?thesis
    using Validate_struct [of ms] fieldErrors_concat [of ms] Validate_not_empty_aggregate [of v]
    by blast
qed

theorem aggregate_order_and_success_witness:
  "IsExported (FieldOf (Member ''A'' [] [(''validate'', ''min:1;max:-1'')] (IntValue 0))) \<and>
   Lookup (mTag (Member ''A'' [] [(''validate'', ''min:1;max:-1'')] (IntValue 0))) ''validate''
     = Some ''min:1;max:-1'' \<and>
   parseValidators (TypeOfValue (mValue (Member ''A'' [] [(''validate'', ''min:1;max:-1'')] (IntValue 0))))
       ''min:1;max:-1''
     = Inr (Inr [intMinValidator 1, intMaxValidator (- 1)]) \<and>
   Validate (Some (StructValue
      [Member ''A'' [] [(''validate'', ''min:1;max:-1'')] (IntValue 0),
       Member ''b'' ''validator'' [(''validate'', ''len:2'')] (StringValue ''abc'')]))
     = Inr (Some (ValidationErrors
         [ValidationError ''A'' (Errorf ''0 is less than min allowed 1''),
          ValidationError ''A'' (Errorf ''0 is higher than max allowed -1''),
          ValidationError ''b'' ErrValidateForUnexportedFields])) \<and>
   \<not> needValidation (FieldOf (Member ''f1'' ''validator'' [] (StringValue []))) \<and>
   Validate (Some (StructValue [Member ''f1'' ''validator'' [] (StringValue [])])) = Inr None"
proof -
  let ?a = "Member ''A'' [] [(''validate'', ''min:1;max:-1'')] (IntValue 0)"
  let ?b = "Member ''b'' ''validator'' [(''validate'', ''len:2'')] (StringValue ''abc'')"
  let ?f = "Member ''f1'' ''validator'' [] (StringValue [])"
  have h1: "IsExported (FieldOf ?a)"
    by (simp add: IsExported_def)
  have h2: "Lookup (mTag ?a) ''validate'' = Some ''min:1;max:-1''"
    by (simp add: Lookup_def)
  have h3: "parseValidators (TypeOfValue (mValue ?a)) ''min:1;max:-1''
      = Inr (Inr [intMinValidator 1, intMaxValidator (- 1)])"
    by (simp add: parseValidators_def intValidators_def newIntMinValidator_def
        newIntMaxValidator_def Atoi_def ParseUint_def isDigit_def digitVal_def)
  note T = aggregate_order_and_success [where ms = "[?a, ?b]" and m = ?a
      and tag = "''min:1;max:-1''" and validators = "[intMinValidator 1, intMaxValidator (- 1)]"]
  have "fieldErrors [?a]
      = map (ValidationError (mName ?a))
          (violations [intMinValidator 1, intMaxValidator (- 1)] (mValue ?a))"
    using T [THEN conjunct2, THEN conjunct2, THEN conjunct2, THEN conjunct1] h1 h2 h3
    by blast
  then have a: "fieldErrors [?a]
      = [ValidationError ''A'' (Errorf ''0 is less than min allowed 1''),
         ValidationError ''A'' (Errorf ''0 is higher than max allowed -1'')]"
    by (simp add: violations_def fmt_d_def digits.simps)
  have b: "fieldErrors [?b] = [ValidationError ''b'' ErrValidateForUnexportedFields]"
    by (simp add: fieldErrors_def Lookup_def IsExported_def)
  have all: "fieldErrors [?a, ?b] = fieldErrors [?a] @ fieldErrors [?b]"
    using T [THEN conjunct2, THEN conjunct1] by simp
  have first: "Validate (Some (StructValue [?a, ?b]))
     = Inr (Some (ValidationErrors
         [ValidationError ''A'' (Errorf ''0 is less than min allowed 1''),
          ValidationError ''A'' (Errorf ''0 is higher than max allowed -1''),
          ValidationError ''b'' ErrValidateForUnexportedFields]))"
    unfolding T [THEN conjunct1] all a b by simp
  have h4: "\<not> needValidation (FieldOf ?f)"
    by (simp add: Lookup_def)
  then have "\<forall>m\<in>set [?f]. \<not> needValidation (FieldOf m)"
    by simp
  then have "Validate (Some (StructValue [?f])) = Inr None"
    using aggregate_order_and_success [where ms = "[?f]"] by blast
  with h1 h2 h3 h4 first show ?thesis by blast
qed

section \<open>The panic of the parser\<close>

text \<open>
  Claim C9: the branch of the parser for unsupported types cannot be reached from
  \<open>Validate\<close>. The parser panics exactly on a type that is neither of kind integer nor of
  kind text; a field that needs validation and is no struct, which is where \<open>Validate\<close>
  calls the parser, has one of these two kinds; so \<open>Validate\<close> returns on every value,
  and so does its loop.
\<close>

theorem parser_panic_unreachable:
  "(needValidation f \<and> KindOf (Type f) \<noteq> reflect_Struct \<longrightarrow>
      KindOf (Type f) = reflect_Int \<or> KindOf (Type f) = reflect_String) \<and>
   ((\<exists>p. parseValidators t tag = Inl p)
      = (KindOf t \<noteq> reflect_Int \<and> KindOf t \<noteq> reflect_String)) \<and>
   (\<exists>r. Validate (Some v) = Inr r) \<and>
   (\<exists>errs'. Validate_loop ms errs = Inr errs')"
proof -
  have "KindOf (Type f) = reflect_Int \<or> KindOf (Type f) = reflect_String"
    if "needValidation f" "KindOf (Type f) \<noteq> reflect_Struct"
    using needValidation_leaf [OF that] by auto
  moreover have "(\<exists>p. parseValidators t tag = Inl p)
      = (KindOf t \<noteq> reflect_Int \<and> KindOf t \<noteq> reflect_String)"
    by (cases t) (simp_all add: parseValidators_def)
  ultimately show ?thesis
    using Validate_returns [of v] Validate_loop_fieldErrors [of ms errs] by blast
qed

theorem parser_panic_unreachable_witness:
  "needValidation (StructField ''A'' [] IntType [(''validate'', ''min:1'')]) \<and>
   KindOf (Type (StructField ''A'' [] IntType [(''validate'', ''min:1'')])) \<noteq> reflect_Struct \<and>
   KindOf (Type (StructField ''A'' [] IntType [(''validate'', ''min:1'')])) = reflect_Int \<and>
   (\<exists>r. Validate (Some (StructValue [Member ''A'' [] [(''validate'', ''min:1'')] (IntValue 0)])) = Inr r)"
  using parser_panic_unreachable
    [of "StructField ''A'' [] IntType [(''validate'', ''min:1'')]" IntType "''min:1''"
        "StructValue [Member ''A'' [] [(''validate'', ''min:1'')] (IntValue 0)]" "[]" "[]"]
  by (simp add: Lookup_def del: Validate.simps Validate_loop.simps)

section \<open>Fields of other kinds\<close>

text \<open>
  Claim C10: only a field of kind \<open>reflect.Int\<close> or \<open>reflect.String\<close> is a leaf to
  validate. A field of any other kind that is no struct, the sized and the unsigned
  integers among them, is skipped whatever its annotation and whether it is exported or
  not: it contributes no error, and the result is that of the struct without the
  field.
\<close>

theorem other_kinds_are_skipped:
  assumes "mValue m = OtherValue k"
  shows "\<not> needValidation (FieldOf m) \<and> fieldErrors [m] = [] \<and>
         Validate_loop (ms @ m # ms') errs = Validate_loop (ms @ ms') errs \<and>
         Validate (Some (StructValue (ms @ m # ms'))) = Validate (Some (StructValue (ms @ ms'))) \<and>
         ((needValidation f \<and> KindOf (Type f) \<noteq> reflect_Struct)
            = ((KindOf (Type f) = reflect_Int \<or> KindOf (Type f) = reflect_String)
               \<and> Lookup (Tag f) ''validate'' \<noteq> None))"
proof -
  have skip: "\<not> needValidation (FieldOf m)"
    using assms by (cases m) simp
  then have none: "fieldErrors [m] = []"
    by (rule fieldErrors_skipped)
  have loop: "Validate_loop (ms @ m # ms') errs = Validate_loop (ms @ ms') errs"
    using Validate_loop_split [of ms m ms' errs] none
    by (simp add: Validate_loop_fieldErrors fieldErrors_append)
  have "fieldErrors (ms @ m # ms') = fieldErrors (ms @ ms')"
    using fieldErrors_append [of ms "m # ms'"] fieldErrors_Cons [of m ms'] none
    by (simp add: fieldErrors_append)
  then have whole: "Validate (Some (StructValue (ms @ m # ms')))
      = Validate (Some (StructValue (ms @ ms')))"
    by (simp add: Validate_struct del: Validate.simps)
  have "(needValidation f \<and> KindOf (Type f) \<noteq> reflect_Struct)
            = ((KindOf (Type f) = reflect_Int \<or> KindOf (Type f) = reflect_String)
               \<and> Lookup (Tag f) ''validate'' \<noteq> None)"
    by (cases f) (auto split: Type.splits option.splits)
  with skip none loop whole show ?thesis by blast
qed

theorem other_kinds_are_skipped_witness:
  "mValue (Member ''n'' ''validator'' [(''validate'', ''min:abc'')] (OtherValue Int8)) = OtherValue Int8 \<and>
   fieldErrors [Member ''n'' ''validator'' [(''validate'', ''min:abc'')] (OtherValue Int8)] = [] \<and>
   Validate (Some (StructValue
      [Member ''n'' ''validator'' [(''validate'', ''min:abc'')] (OtherValue Int8)])) = Inr None"
proof -
  let ?m = "Member ''n'' ''validator'' [(''validate'', ''min:abc'')] (OtherValue Int8)"
  have h: "mValue ?m = OtherValue Int8" by simp
  note T = other_kinds_are_skipped [OF h, where ms = "[]" and ms' = "[]"]
  have "Validate (Some (StructValue [?m])) = Inr None"
    using T [THEN conjunct2, THEN conjunct2, THEN conjunct2, THEN conjunct1] by simp
  with h T show ?thesis by blast
qed

end
